theory Spec2Isabelle
  imports Complex_Main "HOL-Library.Word" "HOL-Library.Log_Nat"
begin

unbundle bit_operations_syntax

section \<open>Binary32 arithmetic\<close>

text \<open>
  The engine computes frequencies in C \<open>float\<close>.  A finite binary32 value is a rational
  number, so \<open>float\<close> variables are modelled as \<^typ>\<open>rat\<close>; comparison and assignment are
  exact, and every arithmetic operation rounds its exact result to the nearest value with
  a 24-bit significand, ties to the even significand.  The exponent range is not bounded:
  all magnitudes that occur in the engine lie far inside the binary32 normal range, and
  NaN and the infinities are not values of the model.
\<close>

type_synonym float = rat

definition rne :: "'a::floor_ceiling \<Rightarrow> int" where
  "rne x = (let f = \<lfloor>x\<rfloor>; r = x - of_int f in
     if r < 1 / 2 then f
     else if 1 / 2 < r then f + 1
     else if even f then f else f + 1)"

definition expo :: "rat \<Rightarrow> int" where
  "expo x = (let (p, q) = quotient_of \<bar>x\<bar>; d = bitlen p - bitlen q in
     if 2 powi d \<le> \<bar>x\<bar> then d else d - 1)"

definition fl32 :: "rat \<Rightarrow> float" where
  "fl32 x = (if x = 0 then 0
     else let u = 2 powi (expo x - 23) in of_int (rne (x / u)) * u)"

definition fadd :: "float \<Rightarrow> float \<Rightarrow> float" where
  "fadd a b = fl32 (a + b)"

definition fmul :: "float \<Rightarrow> float \<Rightarrow> float" where
  "fmul a b = fl32 (a * b)"

definition fdiv :: "float \<Rightarrow> float \<Rightarrow> float" where
  "fdiv a b = fl32 (a / b)"

text \<open>Conversion of a float to an unsigned integer type truncates towards zero.\<close>

definition ftrunc :: "float \<Rightarrow> int" where
  "ftrunc x = (if 0 \<le> x then \<lfloor>x\<rfloor> else \<lceil>x\<rceil>)"

definition f2u8 :: "float \<Rightarrow> 8 word" where
  "f2u8 x = word_of_int (ftrunc x)"

definition f2u16 :: "float \<Rightarrow> 16 word" where
  "f2u16 x = word_of_int (ftrunc x)"

definition f2u32 :: "float \<Rightarrow> 32 word" where
  "f2u32 x = word_of_int (ftrunc x)"

text \<open>Conversion of an unsigned integer to float rounds (exact below \<open>2^24\<close>).\<close>

definition u2f :: "'a::len word \<Rightarrow> float" where
  "u2f w = fl32 (of_nat (unat w))"

section \<open>The waveform engine\<close>

datatype Waveform = Sine | Tri | Saw | Square

text \<open>
  Modelled from the spec: the header that declares \<open>Settings\<close> and \<open>Waveform\<close> is not
  among the sources.  The engine settings are the waveform, the requested frequency (a
  float), the amplitude (an integer) and the last computed actual frequency.
\<close>

record Settings =
  wave :: Waveform
  targetHz :: float
  amp :: int
  actualHz :: float

text \<open>
  The peripherals the engine drives: whether the DAC channel is enabled, every code
  written to it (latest first), whether the PWM pin is attached to its channel, and the
  frequency and duty the PWM channel was set up with.
\<close>

record Periph =
  dac_enabled :: bool
  dac_writes :: "8 word list"
  pwm_attached :: bool
  pwm_hz :: "32 word"
  pwm_duty :: "32 word"

definition periph0 :: Periph where
  "periph0 = \<lparr> dac_enabled = False, dac_writes = [], pwm_attached = False,
     pwm_hz = 0, pwm_duty = 0 \<rparr>"

definition dac_output_enable :: "Periph \<Rightarrow> Periph" where
  "dac_output_enable h = h\<lparr>dac_enabled := True\<rparr>"

definition dac_output_disable :: "Periph \<Rightarrow> Periph" where
  "dac_output_disable h = h\<lparr>dac_enabled := False\<rparr>"

definition dac_output_voltage :: "8 word \<Rightarrow> Periph \<Rightarrow> Periph" where
  "dac_output_voltage v h = h\<lparr>dac_writes := v # dac_writes h\<rparr>"

definition ledcDetachPin :: "Periph \<Rightarrow> Periph" where
  "ledcDetachPin h = h\<lparr>pwm_attached := False\<rparr>"

definition ledcSetup :: "32 word \<Rightarrow> Periph \<Rightarrow> Periph" where
  "ledcSetup hz h = h\<lparr>pwm_hz := hz\<rparr>"

definition ledcAttachPin :: "Periph \<Rightarrow> Periph" where
  "ledcAttachPin h = h\<lparr>pwm_attached := True\<rparr>"

definition ledcWrite :: "32 word \<Rightarrow> Periph \<Rightarrow> Periph" where
  "ledcWrite d h = h\<lparr>pwm_duty := d\<rparr>"

text \<open>
  The file-scope variables of the engine.  \<open>tmr\<close> is true when the timer handle is not
  null, that is when a periodic timer exists and runs with period \<open>tmr_period\<close>.
\<close>

record Engine =
  g :: Settings
  lut_sin :: "8 word list"
  lut_tri :: "8 word list"
  lut_saw :: "8 word list"
  phase :: "16 word"
  phaseStep :: "16 word"
  ampScale :: "8 word"
  wf :: Waveform
  tmr :: bool
  tmr_period :: "32 word"
  periodUs :: "32 word"
  hw :: Periph

definition LUT_N :: "16 word" where
  "LUT_N = 256"

definition PWM_MAX_HZ :: "32 word" where
  "PWM_MAX_HZ = 10000000"

definition DAC_MAX_HZ :: float where
  "DAC_MAX_HZ = 20000"

text \<open>The state before \<open>wavegen_init\<close>: the initialisers of the file-scope variables.\<close>

definition engine0 :: "Settings \<Rightarrow> Engine" where
  "engine0 s0 = \<lparr> g = s0,
     lut_sin = replicate 256 0, lut_tri = replicate 256 0, lut_saw = replicate 256 0,
     phase = 0, phaseStep = 1, ampScale = 255, wf = Sine, tmr = False, tmr_period = 0,
     periodUs = 50, hw = periph0 \<rparr>"

definition lut_get_sample :: "Engine \<Rightarrow> Waveform \<Rightarrow> 16 word \<Rightarrow> 8 word" where
  "lut_get_sample e w idx = (case w of
       Sine \<Rightarrow> lut_sin e ! unat idx
     | Tri \<Rightarrow> lut_tri e ! unat idx
     | Saw \<Rightarrow> lut_saw e ! unat idx
     | Square \<Rightarrow> 0)"

text \<open>
  \<open>(uint16_t(raw) * ampScale) >> 8\<close>: both operands are promoted to 32-bit \<open>int\<close>, the
  product is shifted, and the result is narrowed to \<open>uint8_t\<close>.
\<close>

definition scale_sample :: "8 word \<Rightarrow> 8 word \<Rightarrow> 8 word" where
  "scale_sample raw a =
     ucast (drop_bit 8 ((ucast (ucast raw :: 16 word) :: 32 word) * ucast a))"

text \<open>\<open>(phase + phaseStep) & (LUT_N - 1)\<close>, computed in \<open>int\<close> and stored as \<open>uint16_t\<close>.\<close>

definition advance :: "16 word \<Rightarrow> 16 word \<Rightarrow> 16 word" where
  "advance p st = ucast (((ucast p :: 32 word) + ucast st) AND (ucast LUT_N - 1))"

definition on_timer :: "Engine \<Rightarrow> Engine" where
  "on_timer e = (if wf e = Square then e
     else let raw = lut_get_sample e (wf e) (ucast ((ucast (phase e) :: 32 word) AND (ucast LUT_N - 1)));
              out = scale_sample raw (ampScale e);
              e1 = e\<lparr>hw := dac_output_voltage out (hw e)\<rparr>
          in e1\<lparr>phase := advance (phase e1) (phaseStep e1)\<rparr>)"


text \<open>
  \<open>build_luts_once\<close>.  The C library's \<open>sinf\<close> is not part of the repository and is a
  parameter.  \<open>M_PI\<close> is the double nearest to \<open>\<pi>\<close>; the cast to float rounds it.
  \<open>sin_value\<close> is the float expression of the sine entry before the cast to \<open>uint8_t\<close>.
\<close>

definition M_PI :: rat where
  "M_PI = 884279719003555 / 281474976710656"

definition sin_value :: "(float \<Rightarrow> float) \<Rightarrow> 16 word \<Rightarrow> float" where
  "sin_value sinf i =
     (let t = fdiv (u2f i) (u2f LUT_N)
      in fadd (fadd (255 / 2) (fmul (255 / 2) (sinf (fmul (fmul 2 (fl32 M_PI)) t)))) (1 / 2))"

definition sin_entry :: "(float \<Rightarrow> float) \<Rightarrow> 16 word \<Rightarrow> 8 word" where
  "sin_entry sinf i = f2u8 (sin_value sinf i)"

definition tri_entry :: "16 word \<Rightarrow> 8 word" where
  "tri_entry i = (if i < 128 then ucast ((ucast i :: 32 word) * 2)
     else ucast ((255 - (ucast i :: 32 word)) * 2))"

definition saw_entry :: "16 word \<Rightarrow> 8 word" where
  "saw_entry i = ucast i"

definition build_step :: "(float \<Rightarrow> float) \<Rightarrow> 16 word \<Rightarrow> Engine \<Rightarrow> Engine" where
  "build_step sinf i e = e\<lparr>
     lut_sin := (lut_sin e)[unat i := sin_entry sinf i],
     lut_tri := (lut_tri e)[unat i := tri_entry i],
     lut_saw := (lut_saw e)[unat i := saw_entry i]\<rparr>"

definition build_luts_once :: "(float \<Rightarrow> float) \<Rightarrow> Engine \<Rightarrow> Engine" where
  "build_luts_once sinf e = fold (build_step sinf) (map of_nat [0..<unat LUT_N]) e"

text \<open>The timer is deleted and created anew on every start.\<close>

definition dac_timer_stop :: "Engine \<Rightarrow> Engine" where
  "dac_timer_stop e = (if tmr e then e\<lparr>tmr := False\<rparr> else e)"

definition dac_timer_start :: "32 word \<Rightarrow> Engine \<Rightarrow> Engine" where
  "dac_timer_start perUs e =
     (let e1 = (if tmr e then e\<lparr>tmr := False\<rparr> else e)
      in e1\<lparr>tmr := True, tmr_period := perUs\<rparr>)"

definition configure_dac_wave :: "float \<Rightarrow> Engine \<Rightarrow> float \<times> Engine" where
  "configure_dac_wave hz e =
     (let t1 = (if hz < 1 then 1 else hz);
          t2 = (if DAC_MAX_HZ < t1 then DAC_MAX_HZ else t1);
          e1 = e\<lparr>periodUs := 50\<rparr>;
          fs = fdiv 1000000 (u2f (periodUs e1));
          idealStep = fdiv (fmul t2 (u2f LUT_N)) fs;
          st = f2u16 (fadd idealStep (1 / 2));
          st1 = (if st < 1 then 1 else st);
          st2 = (if 64 < st1 then 64 else st1);
          e2 = e1\<lparr>phaseStep := st2\<rparr>;
          actual = fmul fs (fdiv (u2f (phaseStep e2)) (u2f LUT_N));
          e3 = e2\<lparr>hw := dac_output_enable (hw e2)\<rparr>;
          e4 = dac_timer_start (periodUs e3) e3
      in (actual, e4))"

definition configure_square :: "float \<Rightarrow> Engine \<Rightarrow> Engine" where
  "configure_square hz e =
     (let t1 = (if hz < 1 then 1 else hz);
          t2 = (if u2f PWM_MAX_HZ < t1 then u2f PWM_MAX_HZ else t1);
          e1 = dac_timer_stop e;
          e2 = e1\<lparr>hw := dac_output_disable (hw e1)\<rparr>;
          e3 = e2\<lparr>hw := ledcDetachPin (hw e2)\<rparr>;
          e4 = e3\<lparr>hw := ledcSetup (f2u32 t2) (hw e3)\<rparr>;
          e5 = e4\<lparr>hw := ledcAttachPin (hw e4)\<rparr>
      in e5\<lparr>hw := ledcWrite 128 (hw e5)\<rparr>)"

definition wavegen_apply :: "Settings \<Rightarrow> Engine \<Rightarrow> Engine" where
  "wavegen_apply s e =
     (let e1 = e\<lparr>g := s\<rparr>;
          e2 = (if 255 < amp (g e1) then e1\<lparr>g := (g e1)\<lparr>amp := 255\<rparr>\<rparr> else e1);
          e3 = e2\<lparr>ampScale := word_of_int (amp (g e2))\<rparr>;
          e4 = e3\<lparr>wf := wave (g e3)\<rparr>
      in if wave (g e4) = Square
         then let e5 = configure_square (targetHz (g e4)) e4
              in e5\<lparr>g := (g e5)\<lparr>actualHz := targetHz (g e5)\<rparr>\<rparr>
         else let (a, e5) = configure_dac_wave (targetHz (g e4)) e4
              in e5\<lparr>g := (g e5)\<lparr>actualHz := a\<rparr>\<rparr>)"

definition wavegen_init :: "(float \<Rightarrow> float) \<Rightarrow> Engine \<Rightarrow> Engine" where
  "wavegen_init sinf e =
     (let e1 = build_luts_once sinf e;
          e2 = e1\<lparr>hw := dac_output_enable (hw e1)\<rparr>
      in wavegen_apply (g e2) e2)"

definition wavegen_get :: "Engine \<Rightarrow> Settings" where
  "wavegen_get e = g e"

text \<open>
  The calls the control context and the timer can make, and a run of the engine from the
  initialised variables.
\<close>

datatype Call = Init "float \<Rightarrow> float" | Apply Settings | Tick

fun call :: "Call \<Rightarrow> Engine \<Rightarrow> Engine" where
  "call (Init sinf) e = wavegen_init sinf e"
| "call (Apply s) e = wavegen_apply s e"
| "call Tick e = on_timer e"

definition run :: "Call list \<Rightarrow> Engine \<Rightarrow> Engine" where
  "run cs e = fold call cs e"


text \<open>Two settings used as concrete inputs below.\<close>

definition sine_1k :: Settings where
  "sine_1k = \<lparr> wave = Sine, targetHz = 1000, amp = 255, actualHz = 0 \<rparr>"

definition square_2k :: Settings where
  "square_2k = \<lparr> wave = Square, targetHz = 2000, amp = 128, actualHz = 0 \<rparr>"

definition square_half :: Settings where
  "square_half = \<lparr> wave = Square, targetHz = 1 / 2, amp = 128, actualHz = 0 \<rparr>"

section \<open>The earlier sketch\<close>

text \<open>
  The repository keeps an earlier stand-alone sketch with its own mode switch.  Its
  variables, as far as \<open>applyMode\<close> reads or writes them; \<open>waveTimer\<close> is true when the
  timer handle is not null.  Serial output is not modelled.
\<close>

datatype WaveMode = MODE_SINE | MODE_TRI | MODE_SAW | MODE_SQUARE

record Sketch =
  mode :: WaveMode
  frequencyHz :: float
  amplitude :: int
  waveTimer :: bool
  phaseIdx :: "16 word"
  timerPeriodUs :: "32 word"
  timerActive :: bool
  started_period :: "32 word"
  periph :: Periph

definition LUT_SIZE :: "16 word" where
  "LUT_SIZE = 256"

definition LEDC_DUTY_50 :: "32 word" where
  "LEDC_DUTY_50 = push_bit 10 1 div 2"

text \<open>\<open>lroundf\<close> rounds to the nearest integer, halfway cases away from zero.\<close>

definition lroundf :: "float \<Rightarrow> int" where
  "lroundf x = (if 0 \<le> x then \<lfloor>x + 1 / 2\<rfloor> else \<lceil>x - 1 / 2\<rceil>)"

definition calcTimerPeriodUs :: "float \<Rightarrow> 32 word" where
  "calcTimerPeriodUs fHz =
     (let sampleRate = fmul fHz (u2f LUT_SIZE);
          sampleRate1 = (if sampleRate < 1 then 1 else sampleRate);
          p = fdiv 1000000 sampleRate1;
          p1 = (if p < 20 then 20 else p);
          p2 = (if 50000 < p1 then 50000 else p1)
      in word_of_int (lroundf p2))"

definition stopTimerWave :: "Sketch \<Rightarrow> Sketch" where
  "stopTimerWave v = (if waveTimer v \<and> timerActive v then v\<lparr>timerActive := False\<rparr> else v)"

definition startTimerWave :: "Sketch \<Rightarrow> Sketch" where
  "startTimerWave v = (if \<not> waveTimer v then v
     else let v1 = v\<lparr>phaseIdx := 0\<rparr>;
              v2 = v1\<lparr>started_period := timerPeriodUs v1\<rparr>
          in v2\<lparr>timerActive := True\<rparr>)"

definition setSquareWave :: "float \<Rightarrow> Sketch \<Rightarrow> Sketch" where
  "setSquareWave fHz v =
     (let v1 = v\<lparr>periph := ledcSetup (word_of_int (lroundf fHz)) (periph v)\<rparr>;
          v2 = v1\<lparr>periph := ledcAttachPin (periph v1)\<rparr>
      in v2\<lparr>periph := ledcWrite LEDC_DUTY_50 (periph v2)\<rparr>)"

definition stopSquareWave :: "Sketch \<Rightarrow> Sketch" where
  "stopSquareWave v = v\<lparr>periph := ledcDetachPin (periph v)\<rparr>"

definition applyMode :: "Sketch \<Rightarrow> Sketch" where
  "applyMode v =
     (let v1 = stopTimerWave v;
          v2 = stopSquareWave v1;
          v3 = v2\<lparr>periph := dac_output_disable (periph v2)\<rparr>
      in if mode v3 = MODE_SQUARE then setSquareWave (frequencyHz v3) v3
         else let v4 = v3\<lparr>periph := dac_output_enable (periph v3)\<rparr>;
                  v5 = v4\<lparr>timerPeriodUs := calcTimerPeriodUs (frequencyHz v4)\<rparr>
              in startTimerWave v5)"

text \<open>The sketch's variables as initialised, before \<open>setup\<close> creates the timer.\<close>

definition sketch0 :: Sketch where
  "sketch0 = \<lparr> mode = MODE_SINE, frequencyHz = 500, amplitude = 160, waveTimer = False,
     phaseIdx = 0, timerPeriodUs = 20, timerActive = False, started_period = 0,
     periph = periph0 \<rparr>"

section \<open>Machine-integer facts\<close>

lemma unat_lt_256: "unat (w :: 8 word) < 256"
  using unsigned_less [of w, where 'a = nat] by simp

lemma unat_lt_65536: "unat (w :: 16 word) < 65536"
  using unsigned_less [of w, where 'a = nat] by simp

lemma unat_up_8_16: "unat (ucast (w :: 8 word) :: 16 word) = unat w"
  using unat_lt_256 [of w] by (simp add: unsigned_ucast_eq take_bit_nat_eq_self)

lemma unat_up_8_32: "unat (ucast (w :: 8 word) :: 32 word) = unat w"
  using unat_lt_256 [of w] by (simp add: unsigned_ucast_eq take_bit_nat_eq_self)

lemma unat_up_16_32: "unat (ucast (w :: 16 word) :: 32 word) = unat w"
  using unat_lt_65536 [of w] by (simp add: unsigned_ucast_eq take_bit_nat_eq_self)

lemma unat_scale_sample: "unat (scale_sample raw a) = unat raw * unat a div 256"
proof -
  have "unat raw * unat a \<le> 255 * 255"
    using unat_lt_256 [of raw] unat_lt_256 [of a] by (intro mult_le_mono) simp_all
  then have b: "unat raw * unat a < 65536" by simp
  have "unat ((ucast (ucast raw :: 16 word) :: 32 word) * ucast a) = unat raw * unat a"
    using b by (simp add: unat_word_ariths unat_up_8_16 unat_up_8_32 unat_up_16_32)
  then have d: "unat (drop_bit 8 ((ucast (ucast raw :: 16 word) :: 32 word) * ucast a))
      = unat raw * unat a div 256"
    by (simp add: unat_drop_bit_eq drop_bit_eq_div unat_div_distrib)
  have "unat raw * unat a div 256 < 256" using b by simp
  then show ?thesis
    unfolding scale_sample_def using d
    by (simp add: unsigned_ucast_eq take_bit_nat_eq_self)
qed

lemma unat_advance: "unat (advance p st) = (unat p + unat st) mod 256"
proof -
  have s: "unat ((ucast p :: 32 word) + ucast st) = unat p + unat st"
    using unat_lt_65536 [of p] unat_lt_65536 [of st]
    by (simp add: unat_word_ariths unat_up_16_32)
  have "(ucast LUT_N - 1 :: 32 word) = mask 8"
    by (simp add: LUT_N_def mask_eq_exp_minus_1)
  then have "unat (((ucast p :: 32 word) + ucast st) AND (ucast LUT_N - 1))
      = (unat p + unat st) mod 256"
    using s by (simp add: unsigned_take_bit_eq take_bit_eq_mod unat_mod_distrib
        flip: take_bit_eq_mask)
  moreover have "(unat p + unat st) mod 256 < 65536"
    by (rule less_trans [OF mod_less_divisor]) simp_all
  ultimately show ?thesis
    unfolding advance_def by (simp add: unsigned_ucast_eq take_bit_nat_eq_self)
qed

lemma unat_scale_full: "unat (scale_sample raw 255) = (if raw = 0 then 0 else unat raw - 1)"
proof -
  have "unat raw * 255 div 256 = (if raw = 0 then 0 else unat raw - 1)"
    using unat_lt_256 [of raw] by (auto simp: unat_eq_0)
  then show ?thesis by (simp add: unat_scale_sample)
qed


section \<open>Binary32 facts\<close>

subsection \<open>Exponent and rounding\<close>

lemma two_powi_pos: "(0 :: rat) < 2 powi k"
  by (simp add: power_int_def)

lemma two_powi_le: "a \<le> b \<Longrightarrow> (2 :: rat) powi a \<le> 2 powi b"
  by (rule power_int_increasing) simp_all

lemma two_powi_less: "a < b \<Longrightarrow> (2 :: rat) powi a < 2 powi b"
  by (rule power_int_strict_increasing) simp_all

lemma two_powi_less_iff: "(2 :: rat) powi a < 2 powi b \<longleftrightarrow> a < b"
  using two_powi_le [of b a] two_powi_less [of a b] by (auto simp: not_less [symmetric])

lemma two_powi_le_iff: "(2 :: rat) powi a \<le> 2 powi b \<longleftrightarrow> a \<le> b"
  using two_powi_le [of a b] two_powi_less [of b a] by (auto simp: not_le [symmetric])

lemma two_powi_diff: "(2 :: rat) powi (a - b) = 2 powi a / 2 powi b"
  by (rule power_int_diff) simp

lemma two_powi_add: "(2 :: rat) powi (a + b) = 2 powi a * 2 powi b"
  by (rule power_int_add) simp

lemma two_powi_Suc: "(2 :: rat) powi (a + 1) = 2 * 2 powi a"
  by (simp add: power_int_add)

lemma bitlen_powi:
  assumes "0 < p"
  shows "(2 :: rat) powi (bitlen p - 1) \<le> of_int p" "of_int p < (2 :: rat) powi bitlen p"
proof -
  have l: "1 \<le> bitlen p" using assms by (simp add: bitlen_alt_def)
  have "2 ^ nat (bitlen p - 1) \<le> p" "p < 2 ^ nat (bitlen p)"
    using bitlen_bounds [OF assms] by simp_all
  then have "(of_int (2 ^ nat (bitlen p - 1)) :: rat) \<le> of_int p"
    "(of_int p :: rat) < of_int (2 ^ nat (bitlen p))"
    by (simp_all only: of_int_le_iff of_int_less_iff)
  then show "(2 :: rat) powi (bitlen p - 1) \<le> of_int p" "of_int p < (2 :: rat) powi bitlen p"
    using l by (simp_all add: power_int_nonneg_exp)
qed

lemma expo_bounds:
  assumes "x \<noteq> 0"
  shows "2 powi (expo x) \<le> \<bar>x\<bar> \<and> \<bar>x\<bar> < 2 powi (expo x + 1)"
proof -
  obtain p q where pq: "quotient_of \<bar>x\<bar> = (p, q)" by (cases "quotient_of \<bar>x\<bar>")
  have q: "0 < q" using pq by (rule quotient_of_denom_pos)
  have x: "\<bar>x\<bar> = of_int p / of_int q" using pq by (rule quotient_of_div)
  have "0 < \<bar>x\<bar>" using assms by simp
  then have p: "0 < p" using q x by (simp add: zero_less_divide_iff)
  define d where "d = bitlen p - bitlen q"
  have "of_int p / of_int q < (2 :: rat) powi bitlen p / 2 powi (bitlen q - 1)"
    using bitlen_powi [OF p] bitlen_powi [OF q] p
    by (intro frac_less) (simp_all add: two_powi_pos)
  moreover have "d + 1 = bitlen p - (bitlen q - 1)" by (simp add: d_def)
  then have "(2 :: rat) powi (d + 1) = 2 powi bitlen p / 2 powi (bitlen q - 1)"
    by (simp only: two_powi_diff)
  ultimately have up: "\<bar>x\<bar> < 2 powi (d + 1)"
    by (simp add: x)
  have "(2 :: rat) powi (bitlen p - 1) / 2 powi bitlen q < of_int p / of_int q"
    using bitlen_powi [OF p] bitlen_powi [OF q] q
    by (intro frac_less2) (simp_all add: two_powi_pos)
  moreover have "d - 1 = bitlen p - 1 - bitlen q" by (simp add: d_def)
  then have "(2 :: rat) powi (d - 1) = 2 powi (bitlen p - 1) / 2 powi bitlen q"
    by (simp only: two_powi_diff)
  ultimately have lo: "2 powi (d - 1) < \<bar>x\<bar>"
    by (simp add: x)
  show ?thesis
    using pq up lo by (auto simp: expo_def Let_def d_def not_le)
qed

lemma expo_unique:
  assumes "2 powi k \<le> \<bar>x\<bar>" "\<bar>x\<bar> < 2 powi (k + 1)"
  shows "expo x = k"
proof -
  have "0 < \<bar>x\<bar>" using assms(1) two_powi_pos [of k] by linarith
  then have "x \<noteq> 0" by simp
  from expo_bounds [OF this] assms
  have "(2 :: rat) powi k < 2 powi (expo x + 1)" "(2 :: rat) powi expo x < 2 powi (k + 1)"
    by linarith+
  then show ?thesis by (simp add: two_powi_less_iff)
qed

lemma fl32_binade:
  assumes "2 powi k \<le> \<bar>x\<bar>" "\<bar>x\<bar> < 2 powi (k + 1)"
  shows "fl32 x = of_int (rne (x / 2 powi (k - 23))) * 2 powi (k - 23)"
proof -
  have "0 < \<bar>x\<bar>" using assms(1) two_powi_pos [of k] by linarith
  then show ?thesis
    by (simp add: fl32_def expo_unique [OF assms] Let_def)
qed

lemma rne_of_int: "rne (of_int m) = m"
  by (simp add: rne_def)

lemma rne_range: "\<lfloor>x\<rfloor> \<le> rne x \<and> rne x \<le> \<lfloor>x\<rfloor> + 1"
  by (simp add: rne_def Let_def)

lemma rne_mono:
  assumes "x \<le> y"
  shows "rne x \<le> rne y"
proof (cases "\<lfloor>x\<rfloor> = \<lfloor>y\<rfloor>")
  case True
  with assms show ?thesis by (auto simp: rne_def Let_def)
next
  case False
  with assms have "\<lfloor>x\<rfloor> + 1 \<le> \<lfloor>y\<rfloor>" using floor_mono [OF assms] by linarith
  with rne_range [of x] rne_range [of y] show ?thesis by linarith
qed


lemma floor_rat_numeral: "\<lfloor>numeral a / numeral b :: rat\<rfloor> = numeral a div numeral b"
  using floor_divide_of_int_eq [of "numeral a" "numeral b", where ?'a = rat] by simp

declare floor_rat_numeral [simp]

lemma expo_ge: "2 powi j \<le> \<bar>x\<bar> \<Longrightarrow> j \<le> expo x"
proof -
  assume a: "2 powi j \<le> \<bar>x\<bar>"
  then have "0 < \<bar>x\<bar>" using two_powi_pos [of j] by linarith
  then have "x \<noteq> 0" by simp
  from expo_bounds [OF this] a have "(2 :: rat) powi j < 2 powi (expo x + 1)" by linarith
  then show ?thesis by (simp add: two_powi_less_iff)
qed

lemma expo_le: "\<bar>x\<bar> < 2 powi (j + 1) \<Longrightarrow> x \<noteq> 0 \<Longrightarrow> expo x \<le> j"
proof -
  assume a: "\<bar>x\<bar> < 2 powi (j + 1)" and "x \<noteq> 0"
  from expo_bounds [OF this(2)] a have "(2 :: rat) powi expo x < 2 powi (j + 1)" by linarith
  then show ?thesis by (simp add: two_powi_less_iff)
qed

lemma rne_near: "- (1 / 2) < r \<Longrightarrow> r < 1 / 2 \<Longrightarrow> rne (of_int n + r) = n"
proof -
  assume a: "- (1 / 2) < r" "r < 1 / 2"
  show ?thesis
  proof (cases "0 \<le> r")
    case True
    with a have "\<lfloor>of_int n + r\<rfloor> = n" by (intro floor_unique) simp_all
    with a True show ?thesis by (simp add: rne_def Let_def)
  next
    case False
    with a have "\<lfloor>of_int n + r\<rfloor> = n - 1" by (intro floor_unique) simp_all
    with a False show ?thesis by (simp add: rne_def Let_def)
  qed
qed

lemma fl32_exact:
  assumes "x = of_int m * 2 powi j" "\<bar>m\<bar> < 2 ^ 24"
  shows "fl32 x = x"
proof (cases "m = 0")
  case True
  with assms show ?thesis by (simp add: fl32_def)
next
  case False
  define b where "b = expo (of_int m)"
  have m0: "(of_int m :: rat) \<noteq> 0" using False by simp
  have bb: "2 powi b \<le> \<bar>of_int m :: rat\<bar>" "\<bar>of_int m :: rat\<bar> < 2 powi (b + 1)"
    using expo_bounds [OF m0] by (simp_all add: b_def)
  have "\<bar>of_int m :: rat\<bar> < 2 powi 24"
    using assms(2) by (simp flip: of_int_abs)
  with bb(1) have "(2 :: rat) powi b < 2 powi 24" by linarith
  then have "b < 24" by (simp only: two_powi_less_iff)
  then have b23: "b \<le> 23" by simp
  have ax: "\<bar>x\<bar> = \<bar>of_int m\<bar> * 2 powi j"
    using two_powi_pos [of j] by (simp add: assms(1) abs_mult)
  have "2 powi (b + j) \<le> \<bar>x\<bar>" "\<bar>x\<bar> < 2 powi (b + j + 1)"
    using bb two_powi_pos [of j] by (simp_all add: ax power_int_add add.assoc flip: add.assoc)
  then have fx: "fl32 x = of_int (rne (x / 2 powi (b + j - 23))) * 2 powi (b + j - 23)"
    by (rule fl32_binade)
  have "x / 2 powi (b + j - 23) = of_int m * (2 powi j / 2 powi (b + j - 23))"
    by (simp add: assms(1))
  also have "(2 :: rat) powi j / 2 powi (b + j - 23) = 2 powi (j - (b + j - 23))"
    by (simp only: two_powi_diff)
  also have "j - (b + j - 23) = 23 - b" by simp
  finally have "x / 2 powi (b + j - 23) = of_int m * 2 powi (23 - b)" .
  also have "\<dots> = of_int (m * 2 ^ nat (23 - b))"
    using b23 by (simp add: power_int_nonneg_exp)
  finally have "rne (x / 2 powi (b + j - 23)) = m * 2 ^ nat (23 - b)"
    by (simp only: rne_of_int)
  then have "fl32 x = of_int m * 2 powi (23 - b) * 2 powi (b + j - 23)"
    using b23 by (simp add: fx power_int_nonneg_exp)
  also have "\<dots> = of_int m * (2 powi (23 - b) * 2 powi (b + j - 23))"
    by simp
  also have "(2 :: rat) powi (23 - b) * 2 powi (b + j - 23) = 2 powi ((23 - b) + (b + j - 23))"
    by (simp only: two_powi_add)
  finally show ?thesis by (simp add: assms(1))
qed

lemma fl32_binade_range:
  assumes "2 powi k \<le> x" "x < 2 powi (k + 1)"
  shows "2 powi k \<le> fl32 x \<and> fl32 x \<le> 2 powi (k + 1)"
proof -
  define u :: rat where "u = 2 powi (k - 23)"
  have u: "0 < u" by (simp add: u_def two_powi_pos)
  have x0: "0 < x" using assms(1) two_powi_pos [of k] by linarith
  have f: "fl32 x = of_int (rne (x / u)) * u"
    using fl32_binade [of k x] assms x0 by (simp add: u_def)
  have "k = 23 + (k - 23)" "k + 1 = 24 + (k - 23)" by simp_all
  then have "(2 :: rat) powi k = 2 powi 23 * u" "(2 :: rat) powi (k + 1) = 2 powi 24 * u"
    unfolding u_def by (metis two_powi_add)+
  then have lo: "(2 :: rat) powi k = of_int (2 ^ 23) * u"
    and hi: "(2 :: rat) powi (k + 1) = of_int (2 ^ 24) * u"
    by simp_all
  have "of_int (2 ^ 23) \<le> x / u" "x / u \<le> of_int (2 ^ 24)"
    using assms u unfolding lo hi by (simp_all add: pos_le_divide_eq pos_divide_le_eq)
  then have "rne (of_int (2 ^ 23) :: rat) \<le> rne (x / u)" "rne (x / u) \<le> rne (of_int (2 ^ 24) :: rat)"
    by (simp_all only: rne_mono)
  then have "2 ^ 23 \<le> rne (x / u)" "rne (x / u) \<le> 2 ^ 24"
    by (simp_all only: rne_of_int)
  then have "(of_int (2 ^ 23) :: rat) \<le> of_int (rne (x / u))"
    "(of_int (rne (x / u)) :: rat) \<le> of_int (2 ^ 24)"
    by (simp_all only: of_int_le_iff)
  then show ?thesis
    unfolding lo hi f using u by (simp only: mult_le_cancel_right_pos) 
qed

lemma fl32_mono_pos:
  assumes "0 < x" "x \<le> y"
  shows "fl32 x \<le> fl32 y"
proof -
  have y0: "0 < y" using assms by linarith
  have bx: "2 powi expo x \<le> x" "x < 2 powi (expo x + 1)"
    using expo_bounds [of x] assms(1) by simp_all
  have by': "2 powi expo y \<le> y" "y < 2 powi (expo y + 1)"
    using expo_bounds [of y] y0 by simp_all
  have "(2 :: rat) powi expo x < 2 powi (expo y + 1)" using bx(1) by'(2) assms(2) by linarith
  then have le: "expo x \<le> expo y" by (simp add: two_powi_less_iff)
  show ?thesis
  proof (cases "expo x = expo y")
    case True
    have "x / 2 powi (expo y - 23) \<le> y / 2 powi (expo y - 23)"
      using assms(2) two_powi_pos [of "expo y - 23"] by (intro divide_right_mono) simp_all
    then have "rne (x / 2 powi (expo y - 23)) \<le> rne (y / 2 powi (expo y - 23))"
      by (rule rne_mono)
    then show ?thesis
      using assms(1) y0 two_powi_pos [of "expo y - 23"]
      by (simp add: fl32_def Let_def True)
  next
    case False
    with le have "expo x + 1 \<le> expo y" by simp
    then have "(2 :: rat) powi (expo x + 1) \<le> 2 powi expo y" by (rule two_powi_le)
    with fl32_binade_range [OF bx] fl32_binade_range [OF by'] show ?thesis by linarith
  qed
qed


lemma fl32_pos: "0 < x \<Longrightarrow> 0 < fl32 x"
proof -
  assume x: "0 < x"
  then have "2 powi expo x \<le> x" "x < 2 powi (expo x + 1)"
    using expo_bounds [of x] by simp_all
  from fl32_binade_range [OF this] two_powi_pos [of "expo x"] show ?thesis by linarith
qed

lemma fl32_scale: "fl32 (x * 2 powi n) = fl32 x * 2 powi n"
proof (cases "x = 0")
  case True
  then show ?thesis by (simp add: fl32_def)
next
  case False
  then have b: "2 powi expo x \<le> \<bar>x\<bar>" "\<bar>x\<bar> < 2 powi (expo x + 1)"
    using expo_bounds [of x] by simp_all
  have a: "\<bar>x * 2 powi n\<bar> = \<bar>x\<bar> * 2 powi n"
    using two_powi_pos [of n] by (simp add: abs_mult)
  have "expo x + 1 + n = expo x + n + 1" by simp
  then have "(2 :: rat) powi (expo x + n) = 2 powi expo x * 2 powi n"
    "(2 :: rat) powi (expo x + n + 1) = 2 powi (expo x + 1) * 2 powi n"
    by (metis two_powi_add)+
  then have "2 powi (expo x + n) \<le> \<bar>x * 2 powi n\<bar>" "\<bar>x * 2 powi n\<bar> < 2 powi (expo x + n + 1)"
    using b two_powi_pos [of n] by (simp_all add: a)
  then have e: "expo (x * 2 powi n) = expo x + n" by (rule expo_unique)
  have "expo x + n - 23 = (expo x - 23) + n" by simp
  then have u: "(2 :: rat) powi (expo x + n - 23) = 2 powi (expo x - 23) * 2 powi n"
    by (metis two_powi_add)
  have "x * 2 powi n / (2 powi (expo x - 23) * 2 powi n) = x / 2 powi (expo x - 23)"
    using two_powi_pos [of n] by simp
  then show ?thesis
    using False two_powi_pos [of n] by (simp add: fl32_def e u Let_def)
qed

lemma fl32_round_down:
  assumes "0 < y" "fl32 y = y" "0 < x" "x < y + 2 powi (expo y - 24)"
  shows "fl32 x \<le> y"
proof (cases "x \<le> y")
  case True
  with fl32_mono_pos [OF assms(3) True] assms(2) show ?thesis by simp
next
  case False
  define e where "e = expo y"
  define u :: rat where "u = 2 powi (e - 23)"
  define M where "M = rne (y / u)"
  have u: "0 < u" by (simp add: u_def two_powi_pos)
  have b: "2 powi e \<le> y" "y < 2 powi (e + 1)"
    using expo_bounds [of y] assms(1) by (simp_all add: e_def)
  have y: "y = of_int M * u"
    using assms(1,2) by (simp add: fl32_def Let_def u_def M_def e_def)
  have "e + 1 = 24 + (e - 23)" "e - 23 = 1 + (e - 24)" by simp_all
  then have "(2 :: rat) powi (e + 1) = 2 powi 24 * u" "u = 2 powi 1 * 2 powi (e - 24)"
    unfolding u_def by (metis two_powi_add)+
  then have hi: "(2 :: rat) powi (e + 1) = of_int (2 ^ 24) * u" and h: "2 powi (e - 24) = u / 2"
    by simp_all
  have "of_int M * u < of_int (2 ^ 24) * u" using b(2) y hi by simp
  then have "(of_int M :: rat) < of_int (2 ^ 24)" using u by (simp only: mult_less_cancel_right_pos)
  then have "M < 2 ^ 24" by (simp only: of_int_less_iff)
  then have "M + 1 \<le> 2 ^ 24" by simp
  then have "(of_int (M + 1) :: rat) \<le> of_int (2 ^ 24)" by (simp only: of_int_le_iff)
  then have "of_int (M + 1) * u \<le> of_int (2 ^ 24) * u"
    using u by (simp only: mult_le_cancel_right_pos)
  then have "y + u \<le> 2 powi (e + 1)" unfolding hi by (simp add: y algebra_simps)
  moreover have x4: "x < y + u / 2" using assms(4) h by (simp add: e_def)
  ultimately have "x < 2 powi (e + 1)" using u by simp
  moreover have "2 powi e \<le> x" using b(1) False by linarith
  ultimately have "fl32 x = of_int (rne (x / u)) * u"
    using fl32_binade [of e x] assms(3) by (simp add: u_def)
  moreover have "x / u = of_int M + (x - y) / u"
    using u by (simp add: y field_simps)
  moreover have "- (1 / 2) < (x - y) / u" "(x - y) / u < 1 / 2"
    using False x4 u by (simp_all add: field_simps)
  ultimately show ?thesis by (simp add: rne_near y)
qed

lemma fl32_gap:
  assumes "0 < t" "fl32 t = t" "fl32 T = T" "t < T" "2 powi expo T < T"
  shows "t \<le> T - 2 powi (expo T - 23)"
proof -
  define E where "E = expo T"
  define U :: rat where "U = 2 powi (E - 23)"
  define M where "M = rne (T / U)"
  have U: "0 < U" by (simp add: U_def two_powi_pos)
  have T0: "0 < T" using assms(1,4) by linarith
  have T: "T = of_int M * U"
    using T0 assms(3) by (simp add: fl32_def Let_def U_def M_def E_def)
  have b: "2 powi E < T" "T < 2 powi (E + 1)"
    using expo_bounds [of T] T0 assms(5) by (simp_all add: E_def)
  have "E = 23 + (E - 23)" by simp
  then have "(2 :: rat) powi E = 2 powi 23 * U"
    unfolding U_def by (metis two_powi_add)
  then have lo: "(2 :: rat) powi E = of_int (2 ^ 23) * U" by simp
  have "of_int (2 ^ 23) * U < of_int M * U" using b(1) T lo by simp
  then have "(of_int (2 ^ 23) :: rat) < of_int M" using U by (simp only: mult_less_cancel_right_pos)
  then have "2 ^ 23 < M" by (simp only: of_int_less_iff)
  then have "2 ^ 23 \<le> M - 1" by simp
  then have "(of_int (2 ^ 23) :: rat) \<le> of_int (M - 1)" by (simp only: of_int_le_iff)
  then have "of_int (2 ^ 23) * U \<le> of_int (M - 1) * U"
    using U by (simp only: mult_le_cancel_right_pos)
  then have low: "2 powi E \<le> T - U" unfolding lo by (simp add: T algebra_simps)
  have "t \<le> T - U"
  proof (cases "t < 2 powi E")
    case True
    with low show ?thesis by simp
  next
    case False
    then have "2 powi E \<le> t" by simp
    moreover have "t < 2 powi (E + 1)" using assms(4) b by linarith
    ultimately have "fl32 t = of_int (rne (t / U)) * U"
      using fl32_binade [of E t] assms(1) by (simp add: U_def)
    then have t: "t = of_int (rne (t / U)) * U" using assms(2) by simp
    define M' where "M' = rne (t / U)"
    have t': "t = of_int M' * U" using t by (simp add: M'_def)
    have "of_int M' * U < of_int M * U" using assms(4) t' T by simp
    then have "(of_int M' :: rat) < of_int M"
      using U by (simp only: mult_less_cancel_right_pos)
    then have "M' < M" by (simp only: of_int_less_iff)
    then have "M' \<le> M - 1" by simp
    then have "(of_int M' :: rat) \<le> of_int (M - 1)" by (simp only: of_int_le_iff)
    then have "of_int M' * U \<le> of_int (M - 1) * U"
      using U by (simp only: mult_le_cancel_right_pos)
    then show ?thesis by (simp add: t' T algebra_simps)
  qed
  then show ?thesis by (simp add: U_def E_def)
qed

subsection \<open>The rounding thresholds of the phase step\<close>

lemma half_int_exact: "fl32 (of_int k + 1 / 2) = of_int k + 1 / 2" if "\<bar>k\<bar> \<le> 1000" for k :: int
proof -
  have "of_int k + 1 / 2 = (of_int (2 * k + 1) :: rat) * 2 powi (- 1)"
    by (simp add: power_int_minus field_simps)
  moreover have "\<bar>2 * k + 1\<bar> < 2 ^ 24" using that by simp
  ultimately show ?thesis by (rule fl32_exact)
qed

lemma int_exact: "fl32 (of_int k) = of_int k" if "\<bar>k\<bar> < 2 ^ 24" for k :: int
  using fl32_exact [of "of_int k" k 0] that by simp

lemma at_threshold:
  assumes "1 \<le> k" "k \<le> 63" "of_int k + 1 / 2 \<le> x"
  shows "of_int k + 1 \<le> fl32 (fl32 x + 1 / 2)"
proof -
  have c0: "(0 :: rat) < of_int k + 1 / 2" using assms(1) by simp
  have "fl32 (of_int k + 1 / 2) \<le> fl32 x" using c0 assms(3) by (rule fl32_mono_pos)
  then have "of_int k + 1 / 2 \<le> fl32 x" using assms(1,2) by (simp add: half_int_exact)
  then have a: "(of_int (k + 1) :: rat) \<le> fl32 x + 1 / 2" by simp
  have "(0 :: rat) < of_int (k + 1)" using assms(1) by simp
  then have "fl32 (of_int (k + 1)) \<le> fl32 (fl32 x + 1 / 2)" using a by (rule fl32_mono_pos)
  moreover have "fl32 (of_int (k + 1)) = of_int (k + 1)" using assms(1,2) by (intro int_exact) simp
  ultimately show ?thesis by simp
qed


lemma below_threshold:
  fixes k :: int
  assumes k: "1 \<le> k" "k \<le> 63" and t: "0 < t" "fl32 t = t"
    and lt: "t * 8 / 625 < of_int k + 1 / 2"
  shows "fl32 (fl32 (t * 8 / 625) + 1 / 2) < of_int k + 1"
proof -
  define c :: rat where "c = of_int k + 1 / 2"
  define e where "e = expo c"
  define u :: rat where "u = 2 powi (e - 23)"
  define x where "x = t * 8 / 625"
  define T :: rat where "T = of_int ((2 * k + 1) * 625) * 2 powi (- 4)"
  define E where "E = expo T"
  define N where "N = (2 * k + 1) * 2 ^ nat (22 - e)"
  define y where "y = c - u"
  define y2 where "y2 = y + 1 / 2"
  have c1: "1 \<le> c" "c < 64" using k by (simp_all add: c_def)
  then have c0: "0 < c" by simp
  have u: "0 < u" by (simp add: u_def two_powi_pos)
  have cb: "2 powi e \<le> c" "c < 2 powi (e + 1)"
    using expo_bounds [of c] c0 by (simp_all add: e_def)
  have e0: "0 \<le> e" using expo_ge [of 0 c] c1 by (simp add: e_def)
  have e5: "e \<le> 5" using expo_le [of c 5] c1 by (simp add: e_def)
  have "- 1 = (22 - e) + (e - 23)" "e = 23 + (e - 23)" "e + 1 = 24 + (e - 23)"
    "e - 17 = 6 + (e - 23)" "e - 23 = 1 + (e - 24)" "e + 6 = e + 6 + 0"
    by simp_all
  then have "(2 :: rat) powi (- 1) = 2 powi (22 - e) * u" "(2 :: rat) powi e = 2 powi 23 * u"
    "(2 :: rat) powi (e + 1) = 2 powi 24 * u" "(2 :: rat) powi (e - 17) = 2 powi 6 * u"
    "u = 2 powi 1 * 2 powi (e - 24)"
    unfolding u_def by (metis two_powi_add)+
  then have half: "(1 / 2 :: rat) = of_int (2 ^ nat (22 - e)) * u"
    and lo: "(2 :: rat) powi e = of_int (2 ^ 23) * u"
    and hi: "(2 :: rat) powi (e + 1) = of_int (2 ^ 24) * u"
    and u64: "(2 :: rat) powi (e - 17) = 64 * u"
    and uh: "(2 :: rat) powi (e - 24) = u / 2"
    using e5 by (simp_all add: power_int_minus power_int_nonneg_exp)
  have "c = of_int (2 * k + 1) * (1 / 2)" by (simp add: c_def field_simps)
  then have cN: "c = of_int N * u" unfolding half by (simp add: N_def)
  have pe: "(2 :: rat) powi e = of_int (2 ^ nat e)"
    and pe1: "(2 :: rat) powi (e + 1) = of_int (2 ^ nat (e + 1))"
    using e0 by (simp_all add: power_int_nonneg_exp)
  have "(2 :: rat) powi e \<noteq> c"
  proof
    assume "(2 :: rat) powi e = c"
    then have "(of_int (2 * 2 ^ nat e) :: rat) = of_int (2 * k + 1)"
      by (simp add: pe c_def)
    then have "2 * 2 ^ nat e = 2 * k + 1" by (simp only: of_int_eq_iff)
    moreover have "even (2 * 2 ^ nat e :: int)" "odd (2 * k + 1)" by simp_all
    ultimately show False by simp
  qed
  with cb(1) have strict: "2 powi e < c" by simp
  have "of_int (2 ^ 23) * u < of_int N * u" "of_int N * u < of_int (2 ^ 24) * u"
    using strict cb(2) unfolding lo hi cN by simp_all
  then have "(of_int (2 ^ 23) :: rat) < of_int N" "(of_int N :: rat) < of_int (2 ^ 24)"
    using u by (simp_all only: mult_less_cancel_right_pos)
  then have N: "2 ^ 23 < N" "N < 2 ^ 24" by (simp_all only: of_int_less_iff)
  have yN: "y = of_int (N - 1) * u" by (simp add: y_def cN algebra_simps)
  have fy: "fl32 y = y" using yN unfolding u_def by (rule fl32_exact) (use N in simp)
  have "(of_int (2 ^ 23) :: rat) \<le> of_int (N - 1)" using N(1) by (simp only: of_int_le_iff; simp)
  then have "of_int (2 ^ 23) * u \<le> of_int (N - 1) * u"
    using u by (simp only: mult_le_cancel_right_pos)
  then have yb: "2 powi e \<le> y" "y < 2 powi (e + 1)"
    using cb(2) u unfolding lo yN [symmetric] by (simp_all add: y_def)
  then have y0: "0 < y" using two_powi_pos [of e] by linarith
  have ey: "expo y = e" using yb y0 by (intro expo_unique) simp_all
  have Tc: "T = c * 625 / 8" by (simp add: T_def c_def power_int_minus field_simps)
  have fT: "fl32 T = T" using T_def by (rule fl32_exact) (use k in simp)
  have T0: "0 < T" using c0 by (simp add: Tc)
  have "e + 6 = 6 + e" by simp
  then have "(2 :: rat) powi (e + 6) = 2 powi 6 * 2 powi e" by (metis two_powi_add)
  then have "2 powi (e + 6) \<le> \<bar>T\<bar>" using cb(1) c0 by (simp add: Tc)
  then have E6: "e + 6 \<le> E" unfolding E_def by (rule expo_ge)
  have Eb: "2 powi E \<le> T" using expo_bounds [of T] T0 by (simp add: E_def)
  have pE: "(2 :: rat) powi E = of_int (2 ^ nat E)"
    using E6 e0 by (simp add: power_int_nonneg_exp)
  have "(2 :: rat) powi E \<noteq> T"
  proof
    assume "(2 :: rat) powi E = T"
    then have "(of_int (16 * 2 ^ nat E) :: rat) = of_int ((2 * k + 1) * 625)"
      by (simp add: pE T_def power_int_minus)
    then have "16 * 2 ^ nat E = (2 * k + 1) * 625" by (simp only: of_int_eq_iff)
    moreover have "even (16 * 2 ^ nat E :: int)" "odd ((2 * k + 1) * 625)" by simp_all
    ultimately show False by simp
  qed
  with Eb have TE: "2 powi expo T < T" by (simp add: E_def)
  have tT: "t < T" using lt by (simp add: Tc c_def)
  have "t \<le> T - 2 powi (E - 23)" unfolding E_def using t fT tT TE by (rule fl32_gap)
  moreover have "(2 :: rat) powi (e - 17) \<le> 2 powi (E - 23)" using E6 by (intro two_powi_le) simp
  ultimately have "t \<le> T - 64 * u" unfolding u64 by linarith
  then have xle: "x \<le> c - 512 / 625 * u" by (simp add: x_def Tc field_simps)
  have x0: "0 < x" using t(1) by (simp add: x_def)
  have "x < y + u / 2" using xle u by (simp add: y_def field_simps)
  then have "x < y + 2 powi (expo y - 24)" by (simp add: ey uh)
  with y0 fy x0 have fx: "fl32 x \<le> y" by (rule fl32_round_down)
  have y2N: "y2 = of_int (N - 1 + 2 ^ nat (22 - e)) * u"
    unfolding y2_def half yN by (simp add: algebra_simps)
  have y2lt: "y2 < of_int k + 1" using u by (simp add: y2_def y_def c_def)
  have "(of_int k :: rat) < c" by (simp add: c_def)
  then have "(of_int k :: rat) < of_int (2 ^ nat (e + 1))" using cb(2) unfolding pe1 by linarith
  then have "k < 2 ^ nat (e + 1)" by (simp only: of_int_less_iff)
  then have "k + 1 \<le> 2 ^ nat (e + 1)" by simp
  then have "(of_int (k + 1) :: rat) \<le> of_int (2 ^ nat (e + 1))" by (simp only: of_int_le_iff)
  then have "y2 < 2 powi (e + 1)" using y2lt unfolding pe1 by (simp only: of_int_add of_int_1; linarith)
  then have "of_int (N - 1 + 2 ^ nat (22 - e)) * u < of_int (2 ^ 24) * u"
    unfolding y2N hi .
  then have "(of_int (N - 1 + 2 ^ nat (22 - e)) :: rat) < of_int (2 ^ 24)"
    using u by (simp only: mult_less_cancel_right_pos)
  then have "N - 1 + 2 ^ nat (22 - e) < 2 ^ 24" by (simp only: of_int_less_iff)
  moreover have "0 \<le> N - 1 + 2 ^ nat (22 - e)" using N(1) by simp
  ultimately have "\<bar>N - 1 + 2 ^ nat (22 - e)\<bar> < 2 ^ 24" by simp
  with y2N have fy2: "fl32 y2 = y2" unfolding u_def by (rule fl32_exact)
  have "0 < fl32 x + 1 / 2" using fl32_pos [OF x0] by simp
  moreover have "fl32 x + 1 / 2 \<le> y2" using fx by (simp add: y2_def)
  ultimately have "fl32 (fl32 x + 1 / 2) \<le> fl32 y2" by (rule fl32_mono_pos)
  then show ?thesis using fy2 y2lt by (simp add: x_def)
qed

lemma clamp_eqI:
  fixes a b :: int
  assumes "\<And>j. 2 \<le> j \<Longrightarrow> j \<le> 64 \<Longrightarrow> (j \<le> a) = (j \<le> b)"
  shows "max 1 (min 64 a) = max 1 (min 64 b)"
  using assms [of 64] assms [of a] assms [of "a + 1"] assms [of b] assms [of "b + 1"] assms [of 2]
  by (auto simp: max_def min_def)

lemma clamped_float:
  assumes "fl32 hz = hz"
  shows "fl32 (max 1 (min 20000 hz)) = max 1 (min 20000 hz)"
proof -
  have "fl32 1 = 1" "fl32 20000 = 20000"
    using int_exact [of 1] int_exact [of 20000] by simp_all
  with assms show ?thesis by (auto simp: max_def min_def)
qed

lemma step_round:
  assumes "fl32 t = t" "1 \<le> t" "t \<le> 20000"
  shows "max 1 (min 64 \<lfloor>fl32 (fl32 (t * 8 / 625) + 1 / 2)\<rfloor>)
           = max 1 (min 64 \<lfloor>t * 8 / 625 + 1 / 2\<rfloor>)"
proof (rule clamp_eqI)
  fix j :: int
  assume j: "2 \<le> j" "j \<le> 64"
  have t0: "0 < t" using assms(2) by simp
  show "(j \<le> \<lfloor>fl32 (fl32 (t * 8 / 625) + 1 / 2)\<rfloor>) = (j \<le> \<lfloor>t * 8 / 625 + 1 / 2\<rfloor>)"
  proof (cases "of_int (j - 1) + 1 / 2 \<le> t * 8 / 625")
    case True
    with at_threshold [of "j - 1" "t * 8 / 625"] j
    have "of_int j \<le> fl32 (fl32 (t * 8 / 625) + 1 / 2)" by simp
    with True show ?thesis by (simp add: le_floor_iff)
  next
    case False
    with below_threshold [of "j - 1" t] j t0 assms(1)
    have "fl32 (fl32 (t * 8 / 625) + 1 / 2) < of_int j" by simp
    with False show ?thesis by (simp add: le_floor_iff)
  qed
qed

lemma step_bounds:
  assumes "1 \<le> t" "t \<le> 20000"
  shows "0 \<le> \<lfloor>fl32 (fl32 (t * 8 / 625) + 1 / 2)\<rfloor>" "\<lfloor>fl32 (fl32 (t * 8 / 625) + 1 / 2)\<rfloor> \<le> 256"
proof -
  have x: "0 < t * 8 / 625" "t * 8 / 625 \<le> 256" using assms by simp_all
  have "fl32 (t * 8 / 625) \<le> fl32 256" using x by (rule fl32_mono_pos)
  then have a: "fl32 (t * 8 / 625) \<le> 256" using int_exact [of 256] by simp
  have p: "0 < fl32 (t * 8 / 625) + 1 / 2" using fl32_pos [OF x(1)] by simp
  then have "fl32 (fl32 (t * 8 / 625) + 1 / 2) \<le> fl32 (of_int 256 + 1 / 2)"
    using a by (intro fl32_mono_pos) simp_all
  then have "fl32 (fl32 (t * 8 / 625) + 1 / 2) \<le> 256 + 1 / 2"
    using half_int_exact [of 256] by simp
  then show "\<lfloor>fl32 (fl32 (t * 8 / 625) + 1 / 2)\<rfloor> \<le> 256"
    by (simp add: floor_le_iff)
  show "0 \<le> \<lfloor>fl32 (fl32 (t * 8 / 625) + 1 / 2)\<rfloor>"
    using fl32_pos [OF p] by simp
qed

lemma actual_exact:
  fixes n :: int
  assumes "1 \<le> n" "n \<le> 64"
  shows "fmul 20000 (fdiv (fl32 (of_int n)) 256) = 20000 * of_int n / 256"
proof -
  have a: "fl32 (of_int n) = of_int n" using assms by (intro int_exact) simp
  have "(of_int n :: rat) / 256 = of_int n * 2 powi (- 8)" by (simp add: power_int_minus)
  then have b: "fl32 (of_int n / 256) = of_int n / 256" by (rule fl32_exact) (use assms in simp)
  have "20000 * ((of_int n :: rat) / 256) = of_int (625 * n) * 2 powi (- 3)"
    by (simp add: power_int_minus)
  then have "fl32 (20000 * (of_int n / 256)) = 20000 * (of_int n / 256)"
    by (rule fl32_exact) (use assms in simp)
  then show ?thesis by (simp add: fmul_def fdiv_def a b)
qed

subsection \<open>The frequency mapper, evaluated\<close>

lemma u2f_small: "uint w < 2 ^ 24 \<Longrightarrow> u2f w = of_int (uint w)"
  using int_exact [of "uint w"] by (simp add: u2f_def)

lemma u2f_50: "u2f (50 :: 32 word) = 50"
  using u2f_small [of "50 :: 32 word"] by simp

lemma u2f_LUT_N: "u2f LUT_N = 256"
  using u2f_small [of "256 :: 16 word"] by (simp add: LUT_N_def)

lemma fs_value: "fdiv 1000000 50 = 20000"
  using int_exact [of 20000] by (simp add: fdiv_def)

lemma fmul_256: "fl32 t = t \<Longrightarrow> fmul t 256 = t * 256"
  using fl32_scale [of t 8] by (simp add: fmul_def)

lemma unat_word_of_int_16:
  "0 \<le> a \<Longrightarrow> a < 65536 \<Longrightarrow> unat (word_of_int a :: 16 word) = nat a"
proof -
  assume a: "0 \<le> a" "a < 65536"
  then have "nat a < 65536" by simp
  moreover have "(word_of_int a :: 16 word) = of_nat (nat a)" using a(1) by (rule word_of_int_nat)
  ultimately show ?thesis by (simp only: unat_of_nat) simp
qed

lemma word_clamp:
  assumes "0 \<le> a" "a \<le> 256"
  shows "(let st = (word_of_int a :: 16 word); st1 = (if st < 1 then 1 else st)
          in if 64 < st1 then 64 else st1) = word_of_int (max 1 (min 64 a))"
proof -
  have u: "unat (word_of_int a :: 16 word) = nat a"
    using assms by (intro unat_word_of_int_16) simp_all
  consider "a < 1" | "1 \<le> a" "a \<le> 64" | "64 < a" by linarith
  then show ?thesis
  proof cases
    case 1
    with assms have "a = 0" by simp
    then show ?thesis by simp
  next
    case 2
    then have "1 \<le> nat a" "nat a \<le> 64" by simp_all
    with 2 show ?thesis by (simp add: Let_def word_less_nat_alt u max_def min_def)
  next
    case 3
    then show ?thesis by (simp add: Let_def word_less_nat_alt u max_def min_def)
  qed
qed

lemma configure_dac_wave_result:
  assumes "fl32 hz = hz"
  shows "phaseStep (snd (configure_dac_wave hz e))
           = word_of_int (max 1 (min 64 \<lfloor>max 1 (min 20000 hz) * 256 / 20000 + 1 / 2\<rfloor>))"
    and "fst (configure_dac_wave hz e)
           = 20000 * of_int (max 1 (min 64 \<lfloor>max 1 (min 20000 hz) * 256 / 20000 + 1 / 2\<rfloor>)) / 256"
proof -
  define t where "t = max 1 (min 20000 hz)"
  define z where "z = fl32 (fl32 (t * 8 / 625) + 1 / 2)"
  define n where "n = max 1 (min 64 \<lfloor>t * 256 / 20000 + 1 / 2\<rfloor>)"
  have tb: "1 \<le> t" "t \<le> 20000" by (simp_all add: t_def)
  have ft: "fl32 t = t" unfolding t_def using assms by (rule clamped_float)
  have cl: "(if DAC_MAX_HZ < (if hz < 1 then 1 else hz) then DAC_MAX_HZ
             else (if hz < 1 then 1 else hz)) = t"
    by (auto simp: t_def DAC_MAX_HZ_def max_def min_def)
  have r: "t * 256 / 20000 = t * 8 / 625" by simp
  have zb: "0 \<le> \<lfloor>z\<rfloor>" "\<lfloor>z\<rfloor> \<le> 256" unfolding z_def using tb by (rule step_bounds)+
  then have z0: "0 \<le> z" by simp
  have ideal: "fadd (fdiv (fmul t 256) 20000) (1 / 2) = z"
    unfolding fadd_def fdiv_def fmul_256 [OF ft] r z_def ..
  have st: "f2u16 z = word_of_int \<lfloor>z\<rfloor>" using z0 by (simp add: f2u16_def ftrunc_def)
  have n: "max 1 (min 64 \<lfloor>z\<rfloor>) = n" unfolding z_def n_def r using ft tb by (rule step_round)
  have nb: "1 \<le> n" "n \<le> 64" by (simp_all add: n_def)
  have un: "u2f (word_of_int n :: 16 word) = of_int n"
    using nb u2f_small [of "word_of_int n :: 16 word"]
    by (simp add: uint_word_of_int)
  have step: "phaseStep (snd (configure_dac_wave hz e)) = word_of_int n"
    unfolding configure_dac_wave_def
    using word_clamp [OF zb]
    by (auto simp: Let_def cl u2f_50 u2f_LUT_N fs_value ideal st dac_timer_start_def n
        split: if_splits)
  have "fst (configure_dac_wave hz e) = fmul 20000 (fdiv (u2f (word_of_int n :: 16 word)) 256)"
    unfolding configure_dac_wave_def
    using word_clamp [OF zb]
    by (auto simp: Let_def cl u2f_50 u2f_LUT_N fs_value ideal st dac_timer_start_def n
        split: if_splits)
  then have act: "fst (configure_dac_wave hz e) = 20000 * of_int n / 256"
    using actual_exact [OF nb] int_exact [of n] nb by (simp add: un)
  show "phaseStep (snd (configure_dac_wave hz e))
           = word_of_int (max 1 (min 64 \<lfloor>max 1 (min 20000 hz) * 256 / 20000 + 1 / 2\<rfloor>))"
    using step unfolding n_def t_def .
  show "fst (configure_dac_wave hz e)
           = 20000 * of_int (max 1 (min 64 \<lfloor>max 1 (min 20000 hz) * 256 / 20000 + 1 / 2\<rfloor>)) / 256"
    using act unfolding n_def t_def .
qed

section \<open>What the calls do to the phase accumulator\<close>

lemma phase_fold_build: "phase (fold (build_step f) ks e) = phase e"
  by (induction ks arbitrary: e) (simp_all add: build_step_def)

lemma phase_build_luts_once: "phase (build_luts_once f e) = phase e"
  by (simp add: build_luts_once_def phase_fold_build)

lemma phase_configure_square: "phase (configure_square hz e) = phase e"
  by (simp add: configure_square_def dac_timer_stop_def Let_def)

lemma phase_configure_dac_wave: "phase (snd (configure_dac_wave hz e)) = phase e"
  by (simp add: configure_dac_wave_def dac_timer_start_def Let_def)

lemma phase_wavegen_apply: "phase (wavegen_apply s e) = phase e"
  by (simp add: wavegen_apply_def Let_def case_prod_beta phase_configure_square
      phase_configure_dac_wave)

lemma phase_wavegen_init: "phase (wavegen_init f e) = phase e"
  by (simp add: wavegen_init_def Let_def phase_wavegen_apply phase_build_luts_once)

lemma phase_on_timer:
  "phase (on_timer e) = (if wf e = Square then phase e else advance (phase e) (phaseStep e))"
  by (simp add: on_timer_def Let_def)

lemma phase_call_bound: "unat (phase e) < 256 \<Longrightarrow> unat (phase (call c e)) < 256"
  by (cases c) (simp_all add: phase_wavegen_init phase_wavegen_apply phase_on_timer unat_advance)

lemma phase_run_bound: "unat (phase e) < 256 \<Longrightarrow> unat (phase (run cs e)) < 256"
  unfolding run_def by (induction cs arbitrary: e) (simp_all add: phase_call_bound)

lemma wf_wavegen_apply: "wf (wavegen_apply s e) = wave s"
  by (simp add: wavegen_apply_def configure_square_def configure_dac_wave_def
      dac_timer_start_def dac_timer_stop_def Let_def)

lemma hw_on_timer:
  "wf e \<noteq> Square \<Longrightarrow> dac_writes (hw (on_timer e)) =
     scale_sample (lut_get_sample e (wf e) (ucast ((ucast (phase e) :: 32 word) AND (ucast LUT_N - 1))))
       (ampScale e) # dac_writes (hw e)"
  by (simp add: on_timer_def Let_def dac_output_voltage_def)

section \<open>What apply does to the outputs and the settings\<close>

lemma phaseStep_sine_1k: "phaseStep (wavegen_apply sine_1k e) = 13"
proof -
  have h: "fl32 1000 = 1000" using int_exact [of 1000] by simp
  show ?thesis
    using configure_dac_wave_result(1) [OF h]
    by (simp add: wavegen_apply_def sine_1k_def Let_def case_prod_beta round_def)
qed

lemma phaseIdx_applyMode:
  "phaseIdx (applyMode v) = (if mode v \<noteq> MODE_SQUARE \<and> waveTimer v then 0 else phaseIdx v)"
  by (simp add: applyMode_def stopTimerWave_def stopSquareWave_def setSquareWave_def
      startTimerWave_def Let_def)

lemma hw_configure_dac_wave:
  "hw (snd (configure_dac_wave hz e)) = (hw e)\<lparr>dac_enabled := True\<rparr>"
  by (simp add: configure_dac_wave_def dac_timer_start_def dac_output_enable_def Let_def)

lemma hw_configure_square:
  "dac_enabled (hw (configure_square hz e)) = False
   \<and> pwm_attached (hw (configure_square hz e)) = True"
  by (simp add: configure_square_def dac_timer_stop_def dac_output_disable_def Let_def
     ledcDetachPin_def ledcAttachPin_def ledcSetup_def ledcWrite_def)

lemma paths_after_apply:
  "dac_enabled (hw (wavegen_apply s e)) = (wave s \<noteq> Square)
   \<and> pwm_attached (hw (wavegen_apply s e)) = (wave s = Square \<or> pwm_attached (hw e))"
  by (simp add: wavegen_apply_def Let_def case_prod_beta hw_configure_dac_wave hw_configure_square)

lemma u2f_PWM_MAX_HZ: "u2f PWM_MAX_HZ = 10000000"
  using u2f_small [of "10000000 :: 32 word"] by (simp add: PWM_MAX_HZ_def)

lemma square_actual: "wave s = Square \<Longrightarrow> actualHz (wavegen_get (wavegen_apply s e)) = targetHz s"
  by (simp add: wavegen_get_def wavegen_apply_def configure_square_def dac_timer_stop_def Let_def)

lemma square_pwm_hz:
  "wave s = Square \<Longrightarrow> pwm_hz (hw (wavegen_apply s e))
     = f2u32 (if u2f PWM_MAX_HZ < (if targetHz s < 1 then 1 else targetHz s) then u2f PWM_MAX_HZ
              else (if targetHz s < 1 then 1 else targetHz s))"
  by (simp add: wavegen_apply_def configure_square_def dac_timer_stop_def Let_def
      dac_output_disable_def ledcDetachPin_def ledcAttachPin_def ledcSetup_def ledcWrite_def)

section \<open>The sample clock\<close>

text \<open>
  Claim C5.  For every raw sample and every amplitude scale (both 8-bit, so in 0..255) the
  scaled output is \<open>raw * scale div 256\<close> without wrap-around and lies in 0..255; with scale
  0 it is 0; with scale 255 it is the raw sample or one less.  This is the code a tick
  writes to the DAC whenever the waveform is not Square.
\<close>

theorem scaled_output_in_range:
  "unat (scale_sample raw a) = unat raw * unat a div 256
   \<and> unat (scale_sample raw a) \<le> 255
   \<and> scale_sample raw 0 = 0
   \<and> unat raw - 1 \<le> unat (scale_sample raw 255)
   \<and> unat (scale_sample raw 255) \<le> unat raw
   \<and> (wf e \<noteq> Square \<longrightarrow> dac_writes (hw (on_timer e)) =
        scale_sample (lut_get_sample e (wf e)
          (ucast ((ucast (phase e) :: 32 word) AND (ucast LUT_N - 1)))) (ampScale e)
        # dac_writes (hw e))"
proof -
  have "unat (scale_sample raw a) \<le> 255"
    using unat_lt_256 [of "scale_sample raw a"] by simp
  moreover have "unat (scale_sample raw 0) = 0" by (simp add: unat_scale_sample)
  then have "scale_sample raw 0 = 0" by (simp add: unat_eq_0)
  moreover have "unat raw - 1 \<le> unat (scale_sample raw 255)"
    "unat (scale_sample raw 255) \<le> unat raw"
    by (simp_all add: unat_scale_full)
  ultimately show ?thesis
    by (simp add: unat_scale_sample hw_on_timer)
qed

theorem scaled_output_in_range_witness:
  "unat (scale_sample 200 128) = 100
   \<and> wf (engine0 sine_1k) \<noteq> Square
   \<and> dac_writes (hw (on_timer (engine0 sine_1k))) = [0]"
proof -
  have w: "wf (engine0 sine_1k) \<noteq> Square" by (simp add: engine0_def)
  have s: "scale_sample 0 255 = 0" by (simp add: scale_sample_def)
  show ?thesis
    using scaled_output_in_range [of 200 128 "engine0 sine_1k"] w
    by (simp add: engine0_def lut_get_sample_def periph0_def LUT_N_def s)
qed

text \<open>
  Claim C10.  At full amplitude (scale 255) the scaled output is exactly the raw sample
  minus one for every raw sample from 1 to 255, and 0 for raw sample 0; so it is strictly
  below a nonzero raw sample and never reaches 255.
\<close>

theorem full_scale_loses_one:
  "unat (scale_sample raw 255) = (if raw = 0 then 0 else unat raw - 1)
   \<and> (raw \<noteq> 0 \<longrightarrow> scale_sample raw 255 < raw)
   \<and> scale_sample raw 255 < 255"
proof -
  have "raw \<noteq> 0 \<Longrightarrow> 0 < unat raw" by (simp add: unat_gt_0)
  then show ?thesis
    using unat_lt_256 [of raw] by (auto simp: unat_scale_full word_less_nat_alt)
qed

theorem full_scale_loses_one_witness:
  "unat (scale_sample 200 255) = 199 \<and> (200 :: 8 word) \<noteq> 0 \<and> scale_sample 200 255 < 200"
  using full_scale_loses_one [of 200] by simp

text \<open>
  Claim C6.  The phase accumulator starts at 0; after any sequence of engine calls
  (initialisation, apply, timer ticks) from the initial variables it is below \<open>N = 256\<close>;
  and a tick that advances it computes \<open>(phase + phaseStep) mod N\<close>.
\<close>

theorem phase_in_range:
  "phase (engine0 s0) = 0
   \<and> unat (phase (run cs (engine0 s0))) < unat LUT_N
   \<and> (wf e \<noteq> Square \<longrightarrow>
        unat (phase (on_timer e)) = (unat (phase e) + unat (phaseStep e)) mod unat LUT_N)"
proof -
  have "unat (phase (engine0 s0)) < 256" by (simp add: engine0_def)
  then have "unat (phase (run cs (engine0 s0))) < 256" by (rule phase_run_bound)
  then show ?thesis
    by (simp add: LUT_N_def phase_on_timer unat_advance) (simp add: engine0_def)
qed

theorem phase_in_range_witness:
  "unat (phase (run [Apply sine_1k, Tick, Tick] (engine0 sine_1k))) < unat LUT_N
   \<and> wf (engine0 sine_1k) \<noteq> Square
   \<and> unat (phase (on_timer (engine0 sine_1k))) = 1"
proof -
  have w: "wf (engine0 sine_1k) \<noteq> Square" by (simp add: engine0_def)
  show ?thesis
    using phase_in_range [of sine_1k "[Apply sine_1k, Tick, Tick]" "engine0 sine_1k"] w
    by (simp add: engine0_def LUT_N_def)
qed




section \<open>The frequency mapper\<close>

text \<open>
  Claim C4.  For every binary32 request \<open>hz\<close>, \<open>configure_dac_wave\<close> clamps it to
  \<open>[1, DAC_MAX_HZ]\<close>, and with \<open>fs = 1000000 / 50\<close> and \<open>N = 256\<close> the phase step it stores
  is the ideal step \<open>t * N / fs\<close> rounded to the nearest integer and clamped to \<open>[1, 64]\<close>;
  the actual frequency it returns is exactly \<open>fs * step / N\<close>.  The left-hand sides are
  computed in rounded binary32 arithmetic, the right-hand sides in exact arithmetic.
\<close>

theorem frequency_mapping:
  "fl32 hz = hz \<Longrightarrow>
     (let t = max 1 (min DAC_MAX_HZ hz);
          fs = 1000000 / 50;
          n = max 1 (min 64 (round (t * of_nat (unat LUT_N) / fs)))
      in phaseStep (snd (configure_dac_wave hz e)) = word_of_int n
         \<and> fst (configure_dac_wave hz e) = fs * of_int n / of_nat (unat LUT_N))"
proof -
  assume h: "fl32 hz = hz"
  have N: "(of_nat (unat LUT_N) :: rat) = 256" by (simp add: LUT_N_def)
  have fs: "(1000000 / 50 :: rat) = 20000" by simp
  have a: "phaseStep (snd (configure_dac_wave hz e))
      = word_of_int (max 1 (min 64 \<lfloor>max 1 (min 20000 hz) * 256 / 20000 + 1 / 2\<rfloor>))"
    using h by (rule configure_dac_wave_result)
  have b: "fst (configure_dac_wave hz e)
      = 20000 * of_int (max 1 (min 64 \<lfloor>max 1 (min 20000 hz) * 256 / 20000 + 1 / 2\<rfloor>)) / 256"
    using h by (rule configure_dac_wave_result)
  show ?thesis
    unfolding Let_def DAC_MAX_HZ_def round_def N fs using a b by (rule conjI)
qed

theorem frequency_mapping_witness:
  "fl32 1000 = 1000
   \<and> phaseStep (snd (configure_dac_wave 1000 (engine0 sine_1k))) = 13
   \<and> fst (configure_dac_wave 1000 (engine0 sine_1k)) = 8125 / 8"
proof -
  have h: "fl32 1000 = 1000" using int_exact [of 1000] by simp
  have N: "(of_nat (unat LUT_N) :: rat) = 256" by (simp add: LUT_N_def)
  have t: "max 1 (min DAC_MAX_HZ 1000) = 1000" by (simp add: DAC_MAX_HZ_def)
  have r: "round (1000 * 256 / (1000000 / 50) :: rat) = 13" by (simp add: round_def)
  show ?thesis
    using h frequency_mapping [OF h, of "engine0 sine_1k"]
    unfolding Let_def t N r by simp
qed

section \<open>The mode controller\<close>

text \<open>
  Claim C1, as stated, fails: \<open>wavegen_apply\<close> does not reset the phase accumulator.
  After apply, one tick and a second apply of the same settings the phase is 13, not 0.
\<close>

theorem apply_keeps_phase_counterexample:
  "phase (wavegen_apply sine_1k (on_timer (wavegen_apply sine_1k (engine0 sine_1k)))) = 13"
proof -
  have "phase (wavegen_apply sine_1k (engine0 sine_1k)) = 0"
    by (simp add: phase_wavegen_apply engine0_def)
  moreover have "advance 0 13 = 13" by (simp add: advance_def LUT_N_def)
  moreover have "wave sine_1k \<noteq> Square" by (simp add: sine_1k_def)
  ultimately show ?thesis
    by (simp add: phase_wavegen_apply phase_on_timer wf_wavegen_apply phaseStep_sine_1k)
qed

text \<open>
  Claim C1, amended.  \<open>wavegen_apply\<close> never writes the phase accumulator: after
  \<open>wavegen_apply s\<close> the phase equals its prior value, for every settings value.  In the
  earlier sketch, \<open>applyMode\<close> resets \<open>phaseIdx\<close> to 0 when the mode is not square and
  the timer exists, and leaves it unchanged otherwise.
\<close>

theorem apply_phase:
  "phase (wavegen_apply s e) = phase e
   \<and> (mode v \<noteq> MODE_SQUARE \<and> waveTimer v \<longrightarrow> phaseIdx (applyMode v) = 0)
   \<and> (mode v = MODE_SQUARE \<or> \<not> waveTimer v \<longrightarrow> phaseIdx (applyMode v) = phaseIdx v)"
  by (simp add: phase_wavegen_apply phaseIdx_applyMode)

theorem apply_phase_witness:
  "phase (wavegen_apply square_2k ((engine0 sine_1k)\<lparr>phase := 7\<rparr>)) = 7
   \<and> mode (sketch0\<lparr>waveTimer := True, phaseIdx := 7\<rparr>) \<noteq> MODE_SQUARE
   \<and> waveTimer (sketch0\<lparr>waveTimer := True, phaseIdx := 7\<rparr>)
   \<and> phaseIdx (applyMode (sketch0\<lparr>waveTimer := True, phaseIdx := 7\<rparr>)) = 0"
  using apply_phase [of square_2k "(engine0 sine_1k)\<lparr>phase := 7\<rparr>"
      "sketch0\<lparr>waveTimer := True, phaseIdx := 7\<rparr>"]
  by (simp add: sketch0_def)

text \<open>
  Claim C2 at a concrete run: after apply with Square followed by apply with Sine, the DAC
  output is enabled and the PWM pin is still attached, since \<open>configure_dac_wave\<close> never
  detaches it.
\<close>

theorem both_paths_after_square_then_sine:
  "dac_enabled (hw (run [Apply square_2k, Apply sine_1k] (engine0 sine_1k)))
   \<and> pwm_attached (hw (run [Apply square_2k, Apply sine_1k] (engine0 sine_1k)))"
  by (simp add: run_def paths_after_apply sine_1k_def square_2k_def)

text \<open>
  Claim C3 at a concrete input: for a Square request of 0.5 Hz the PWM channel is set up
  with the clamped frequency 1 Hz, but the stored \<open>actualHz\<close> is the unclamped request.
\<close>

theorem square_actual_is_request:
  "actualHz (wavegen_get (wavegen_apply square_half (engine0 sine_1k))) = 1 / 2
   \<and> pwm_hz (hw (wavegen_apply square_half (engine0 sine_1k))) = 1"
proof -
  have w: "wave square_half = Square" by (simp add: square_half_def)
  show ?thesis
    using square_actual [OF w, of "engine0 sine_1k"] square_pwm_hz [OF w, of "engine0 sine_1k"]
    by (simp add: square_half_def u2f_PWM_MAX_HZ f2u32_def ftrunc_def)
qed

end
